theory Spec2Isabelle
  imports Complex_Main "HOL-Library.Word"
begin

unbundle bit_operations_syntax

section \<open>Errors and machine integers\<close>

text \<open>
  Every error return and every run-time panic of the Go code is a value of \<open>error\<close>.
  The first group are the \<open>fmt.Errorf\<close> returns of the package, \<open>Runtime\<close> stands for
  an error handed back by the tensor-graph runtime, and the \<open>Panic\<close> constructors are
  the run-time panics of Go (index out of range, integer division by zero, a slice made
  with a negative length, a slice expression out of bounds). Floats are modelled by the
  real numbers they denote, so the model has no NaN and no infinity: where the Go code
  would produce or read one, or convert a float outside the \<open>int\<close> range (the result
  of which depends on the platform), the run ends with \<open>OutsideModel\<close>.
\<close>

datatype error =
    WavTooSmall
  | NotRIFF
  | NotWAVE
  | FmtChunkTooSmall
  | NoDataChunk
  | UnsupportedAudioFormat nat
  | UnsupportedBitsPerSample nat
  | FormatNotImplemented string
  | FailedToLoadAudio error
  | NoFeaturesExtracted
  | InferenceFailed error
  | DecodingFailed error
  | Runtime string
  | PanicIndexOutOfRange
  | PanicDivideByZero
  | PanicMakeSliceLen
  | PanicSliceBounds
  | OutsideModel

text \<open>Go's \<open>int\<close> and \<open>int64\<close> are 64-bit two's complement; \<open>int32\<close> is 32-bit.\<close>

definition wrap64 :: "int \<Rightarrow> int" where
  "wrap64 x = (x + 2 ^ 63) mod 2 ^ 64 - 2 ^ 63"

definition wrap32 :: "int \<Rightarrow> int" where
  "wrap32 x = (x + 2 ^ 31) mod 2 ^ 32 - 2 ^ 31"

text \<open>Run a fallible function over a list, stopping at the first error.\<close>

fun mapE :: "('a \<Rightarrow> error + 'b) \<Rightarrow> 'a list \<Rightarrow> error + 'b list" where
  "mapE f [] = Inr []"
| "mapE f (x # xs) =
     (case f x of
        Inl e \<Rightarrow> Inl e
      | Inr y \<Rightarrow> (case mapE f xs of Inl e \<Rightarrow> Inl e | Inr ys \<Rightarrow> Inr (y # ys)))"

text \<open>Go's builtin \<open>copy(dst, src)\<close>: the first \<open>min (len dst) (len src)\<close> elements.\<close>

definition copy :: "'a list \<Rightarrow> 'a list \<Rightarrow> 'a list" where
  "copy dst src = take (length dst) src @ drop (length src) dst"

section \<open>The TDT decoding loop (\<open>tdtDecode\<close>)\<close>

text \<open>
  \<open>argmax\<close> as written: index 0 for the empty slice, otherwise the first index of a
  value that no later value exceeds. The element type only needs a comparison, so the
  results below hold for every float semantics, NaN included.
\<close>

fun argmax_loop :: "'a::ord list \<Rightarrow> int \<Rightarrow> 'a \<Rightarrow> int \<Rightarrow> int" where
  "argmax_loop [] i maxVal maxIdx = maxIdx"
| "argmax_loop (v # vs) i maxVal maxIdx =
     (if v > maxVal then argmax_loop vs (i + 1) v i
      else argmax_loop vs (i + 1) maxVal maxIdx)"

definition argmax :: "'a::ord list \<Rightarrow> int" where
  "argmax data = (case data of [] \<Rightarrow> 0 | d0 # _ \<Rightarrow> argmax_loop data 0 d0 0)"

text \<open>
  The fields of \<open>Transcriber\<close> that decoding reads. \<open>NewTranscriber\<close> sets
  \<open>maxTokensPerStep\<close> to 10 and \<open>blankIdx\<close> to 8192; \<open>loadVocab\<close> sets \<open>vocabSize\<close>
  and may move \<open>blankIdx\<close>.
\<close>

record decoder_cfg =
  vocabSize :: int
  blankIdx :: int
  maxTokensPerStep :: int

text \<open>The loop variables of \<open>tdtDecode\<close>.\<close>

record 'a tdt_state =
  timestep :: int
  emittedTokens :: int
  prevToken :: int
  state1 :: "'a list"
  state2 :: "'a list"
  tokens :: "int list"

text \<open>
  One run of the decoder graph is external. The code allocates the three output tensors
  itself (\<open>vocabSize + 5\<close> logits, and \<open>numLayers * stateDim = 1280\<close> floats for each
  state), so the runtime can only choose their contents: a run either fails, or
  gives the contents of the three tensors by index. The session is rebuilt in every
  iteration, so the decoder also sees the iteration number. Creating any of the tensors
  or the session can fail as well; these failures are \<open>Inl\<close> results of the same oracle.
\<close>

record 'a decoder_out =
  outputs :: "nat \<Rightarrow> 'a"
  output_states_1 :: "nat \<Rightarrow> 'a"
  output_states_2 :: "nat \<Rightarrow> 'a"

type_synonym 'a decoder =
  "nat \<Rightarrow> 'a list \<Rightarrow> int \<Rightarrow> 'a list \<Rightarrow> 'a list \<Rightarrow> error + 'a decoder_out"

definition stateDim :: int where "stateDim = 640"
definition numLayers :: int where "numLayers = 2"
definition numDurationClasses :: int where "numDurationClasses = 5"

text \<open>
  The encoder column at \<open>timestep\<close>: entry \<open>d\<close> is read at \<open>d * encodedLen + timestep\<close>
  (in \<open>int64\<close>) when that index is below \<open>len(encoderOut)\<close>, and stays zero otherwise.
  The guard has no lower bound, so a negative index panics.
\<close>

definition encAt :: "'a::zero list \<Rightarrow> int \<Rightarrow> int \<Rightarrow> int \<Rightarrow> error + 'a" where
  "encAt encoderOut encodedLen t d =
     (let idx = wrap64 (wrap64 (d * encodedLen) + t)
      in if idx < int (length encoderOut)
         then (if idx < 0 then Inl PanicIndexOutOfRange else Inr (encoderOut ! nat idx))
         else Inr 0)"

definition encSlice :: "'a::zero list \<Rightarrow> int \<Rightarrow> int \<Rightarrow> int \<Rightarrow> error + 'a list" where
  "encSlice encoderOut encoderDim encodedLen t =
     (if encoderDim < 0 then Inl PanicMakeSliceLen
      else mapE (encAt encoderOut encodedLen t) [0..encoderDim - 1])"

text \<open>The emission step: states, token list and \<open>prevToken\<close> change only for a non-blank token.\<close>

definition emit :: "decoder_cfg \<Rightarrow> int \<Rightarrow> 'a list \<Rightarrow> 'a list \<Rightarrow> 'a tdt_state \<Rightarrow> 'a tdt_state" where
  "emit T token outState1 outState2 s =
     (if token \<noteq> blankIdx T
      then s\<lparr>state1 := copy (state1 s) outState1,
             state2 := copy (state2 s) outState2,
             tokens := tokens s @ [token],
             prevToken := token,
             emittedTokens := emittedTokens s + 1\<rparr>
      else s)"

text \<open>The time advance by the predicted duration.\<close>

definition advance :: "decoder_cfg \<Rightarrow> int \<Rightarrow> int \<Rightarrow> 'a tdt_state \<Rightarrow> 'a tdt_state" where
  "advance T token step s =
     (if step > 0
      then s\<lparr>timestep := wrap64 (timestep s + step), emittedTokens := 0\<rparr>
      else if token = blankIdx T \<or> emittedTokens s \<ge> maxTokensPerStep T
      then s\<lparr>timestep := wrap64 (timestep s + 1), emittedTokens := 0\<rparr>
      else s)"

text \<open>One iteration of the loop body (lines 327 to 490), iteration number \<open>n\<close>.\<close>

definition tdtBody ::
  "decoder_cfg \<Rightarrow> 'a::{ord,zero} decoder \<Rightarrow> 'a list \<Rightarrow> int \<Rightarrow> int \<Rightarrow> nat \<Rightarrow> 'a tdt_state
    \<Rightarrow> error + 'a tdt_state" where
  "tdtBody T dec encoderOut encoderDim encodedLen n s =
     (case encSlice encoderOut encoderDim encodedLen (timestep s) of
        Inl e \<Rightarrow> Inl e
      | Inr encOutSlice \<Rightarrow>
          (case dec n encOutSlice (wrap32 (prevToken s)) (state1 s) (state2 s) of
             Inl e \<Rightarrow> Inl e
           | Inr r \<Rightarrow>
               let outputDim = vocabSize T + numDurationClasses;
                   output = map (outputs r) [0..<nat outputDim];
                   outState1 = map (output_states_1 r) [0..<nat (numLayers * stateDim)];
                   outState2 = map (output_states_2 r) [0..<nat (numLayers * stateDim)]
               in if vocabSize T < 0 \<or> int (length output) < vocabSize T
                  then Inl PanicSliceBounds
                  else
                    let vocabLogits = take (nat (vocabSize T)) output;
                        durationLogits = drop (nat (vocabSize T)) output;
                        token = argmax vocabLogits;
                        step = argmax durationLogits
                    in Inr (advance T token step (emit T token outState1 outState2 s))))"

text \<open>
  The loop \<open>for timestep < encodedLen\<close>. Nothing in the loop itself bounds the number of
  iterations, so the model takes fuel: \<open>None\<close> means that the fuel ran out before the
  loop returned. \<open>tdtTrace\<close> lists the loop variables at the start of every iteration that
  the same run executes.
\<close>

fun tdtLoop ::
  "decoder_cfg \<Rightarrow> 'a::{ord,zero} decoder \<Rightarrow> 'a list \<Rightarrow> int \<Rightarrow> int \<Rightarrow> nat \<Rightarrow> nat \<Rightarrow> 'a tdt_state
    \<Rightarrow> (error + 'a tdt_state) option" where
  "tdtLoop T dec encoderOut encoderDim encodedLen fuel n s =
     (if timestep s < encodedLen
      then (case fuel of
              0 \<Rightarrow> None
            | Suc fuel' \<Rightarrow>
                (case tdtBody T dec encoderOut encoderDim encodedLen n s of
                   Inl e \<Rightarrow> Some (Inl e)
                 | Inr s' \<Rightarrow> tdtLoop T dec encoderOut encoderDim encodedLen fuel' (Suc n) s'))
      else Some (Inr s))"

fun tdtTrace ::
  "decoder_cfg \<Rightarrow> 'a::{ord,zero} decoder \<Rightarrow> 'a list \<Rightarrow> int \<Rightarrow> int \<Rightarrow> nat \<Rightarrow> nat \<Rightarrow> 'a tdt_state
    \<Rightarrow> 'a tdt_state list" where
  "tdtTrace T dec encoderOut encoderDim encodedLen fuel n s =
     (if timestep s < encodedLen
      then (case fuel of
              0 \<Rightarrow> []
            | Suc fuel' \<Rightarrow>
                s # (case tdtBody T dec encoderOut encoderDim encodedLen n s of
                       Inl e \<Rightarrow> []
                     | Inr s' \<Rightarrow> tdtTrace T dec encoderOut encoderDim encodedLen fuel' (Suc n) s'))
      else [])"

text \<open>The loop variables as \<open>tdtDecode\<close> initialises them, and the function itself.\<close>

definition tdtInit :: "decoder_cfg \<Rightarrow> 'a::zero tdt_state" where
  "tdtInit T =
     \<lparr>timestep = 0, emittedTokens = 0, prevToken = blankIdx T,
      state1 = replicate (nat (numLayers * 1 * stateDim)) 0,
      state2 = replicate (nat (numLayers * 1 * stateDim)) 0,
      tokens = []\<rparr>"

definition tdtDecode ::
  "decoder_cfg \<Rightarrow> 'a::{ord,zero} decoder \<Rightarrow> nat \<Rightarrow> 'a list \<Rightarrow> int \<Rightarrow> int
    \<Rightarrow> (error + int list) option" where
  "tdtDecode T dec fuel encoderOut encoderDim encodedLen =
     map_option (map_sum id tokens)
       (tdtLoop T dec encoderOut encoderDim encodedLen fuel 0 (tdtInit T))"

text \<open>
  The token that an iteration picks from the decoder's answer \<open>r\<close>, as \<open>tdtBody\<close>
  computes it.
\<close>

definition iterToken :: "decoder_cfg \<Rightarrow> 'a::ord decoder_out \<Rightarrow> int" where
  "iterToken T r =
     argmax (take (nat (vocabSize T))
       (map (outputs r) [0..<nat (vocabSize T + numDurationClasses)]))"

text \<open>
  The invariant of the loop variables: the time pointer never goes below zero, and the
  number of tokens emitted at the current time pointer stays below \<open>maxTokensPerStep\<close>.
\<close>

definition tdt_inv :: "'a tdt_state \<Rightarrow> bool" where
  "tdt_inv s \<longleftrightarrow> 0 \<le> timestep s \<and> 0 \<le> emittedTokens s \<and> emittedTokens s \<le> 9"

text \<open>
  A small configuration for concrete runs: one vocabulary entry, which is the blank, and a
  decoder that answers zeros.
\<close>

definition T0 :: decoder_cfg where
  "T0 = \<lparr>vocabSize = 1, blankIdx = 0, maxTokensPerStep = 10\<rparr>"

definition dec0 :: "int decoder" where
  "dec0 n sl p s1 s2 =
     Inr \<lparr>outputs = (\<lambda>i. 0), output_states_1 = (\<lambda>i. 0), output_states_2 = (\<lambda>i. 0)\<rparr>"

subsection \<open>Progress of one iteration\<close>

lemma wrap64_id: "- (2 ^ 63) \<le> x \<Longrightarrow> x < 2 ^ 63 \<Longrightarrow> wrap64 x = x"
  by (simp add: wrap64_def)

lemma argmax_loop_bounds:
  "0 \<le> maxIdx \<Longrightarrow> maxIdx \<le> i \<Longrightarrow>
   0 \<le> argmax_loop vs i maxVal maxIdx \<and>
   argmax_loop vs i maxVal maxIdx \<le> max maxIdx (i + int (length vs) - 1)"
proof (induction vs arbitrary: i maxVal maxIdx)
  case Nil
  then show ?case by simp
next
  case (Cons v vs)
  have a: "0 \<le> argmax_loop vs (i + 1) v i \<and>
           argmax_loop vs (i + 1) v i \<le> max i (i + 1 + int (length vs) - 1)"
    using Cons.prems by (intro Cons.IH) auto
  have b: "0 \<le> argmax_loop vs (i + 1) maxVal maxIdx \<and>
           argmax_loop vs (i + 1) maxVal maxIdx \<le> max maxIdx (i + 1 + int (length vs) - 1)"
    using Cons.prems by (intro Cons.IH) auto
  show ?case using a b by auto
qed

lemma argmax_bounds: "0 \<le> argmax data \<and> argmax data \<le> max 0 (int (length data) - 1)"
proof (cases data)
  case Nil
  then show ?thesis by (simp add: argmax_def)
next
  case (Cons d0 ds)
  have "0 \<le> argmax_loop data 0 d0 0 \<and>
        argmax_loop data 0 d0 0 \<le> max 0 (0 + int (length data) - 1)"
    by (intro argmax_loop_bounds) auto
  then show ?thesis using Cons by (simp add: argmax_def)
qed

lemma tdtBody_cases:
  assumes "tdtBody T dec encoderOut encoderDim encodedLen n s = Inr s'"
  obtains token step o1 o2 where
    "s' = advance T token step (emit T token o1 o2 s)" "0 \<le> step" "step \<le> 4"
proof -
  from assms obtain sl r where
    r: "dec n sl (wrap32 (prevToken s)) (state1 s) (state2 s) = Inr r"
    and v: "\<not> (vocabSize T < 0 \<or>
          int (length (map (outputs r) [0..<nat (vocabSize T + numDurationClasses)])) < vocabSize T)"
    and s': "s' = advance T
        (argmax (take (nat (vocabSize T)) (map (outputs r) [0..<nat (vocabSize T + numDurationClasses)])))
        (argmax (drop (nat (vocabSize T)) (map (outputs r) [0..<nat (vocabSize T + numDurationClasses)])))
        (emit T (argmax (take (nat (vocabSize T)) (map (outputs r) [0..<nat (vocabSize T + numDurationClasses)])))
           (map (output_states_1 r) [0..<nat (numLayers * stateDim)])
           (map (output_states_2 r) [0..<nat (numLayers * stateDim)]) s)"
    by (auto simp: tdtBody_def Let_def split: sum.splits if_splits)
  let ?d = "drop (nat (vocabSize T)) (map (outputs r) [0..<nat (vocabSize T + numDurationClasses)])"
  have "0 \<le> vocabSize T" using v by simp
  then have "nat (vocabSize T + 5) - nat (vocabSize T) = 5" by arith
  then have "length ?d = 5" by (simp add: numDurationClasses_def)
  then have "0 \<le> argmax ?d \<and> argmax ?d \<le> 4"
    using argmax_bounds [of ?d] by simp
  then show thesis using s' that by blast
qed

lemma tdtBody_progress:
  assumes b: "tdtBody T dec encoderOut encoderDim encodedLen n s = Inr s'"
    and M: "maxTokensPerStep T = 10"
    and inv: "tdt_inv s"
    and lt: "timestep s < encodedLen"
    and bound: "encodedLen \<le> 2 ^ 63 - 4"
  shows "tdt_inv s' \<and> 10 * timestep s + emittedTokens s + 1 \<le> 10 * timestep s' + emittedTokens s'
         \<and> timestep s \<le> timestep s' \<and> timestep s' \<le> timestep s + 4"
proof -
  from b obtain token step o1 o2 where
    s': "s' = advance T token step (emit T token o1 o2 s)" and st: "0 \<le> step" "step \<le> 4"
    by (rule tdtBody_cases)
  have w: "\<And>k. 0 \<le> k \<Longrightarrow> k \<le> 4 \<Longrightarrow> wrap64 (timestep s + k) = timestep s + k"
    using inv lt bound by (intro wrap64_id) (auto simp: tdt_inv_def)
  have w1: "wrap64 (timestep s + 1) = timestep s + 1" using w [of 1] by simp
  have ws: "wrap64 (timestep s + step) = timestep s + step" using w st by simp
  show ?thesis
    using inv st M unfolding s' advance_def emit_def tdt_inv_def
    by (auto simp: w1 ws)
qed

subsection \<open>The iterations of a run\<close>

declare tdtLoop.simps [simp del] tdtTrace.simps [simp del]

lemma tdtTrace_stop: "\<not> timestep s < encodedLen \<Longrightarrow> tdtTrace T dec eo ed encodedLen fuel n s = []"
  by (simp add: tdtTrace.simps)

lemma tdtTrace_0: "tdtTrace T dec eo ed encodedLen 0 n s = []"
  by (simp add: tdtTrace.simps)

lemma tdtTrace_Suc:
  "timestep s < encodedLen \<Longrightarrow>
   tdtTrace T dec eo ed encodedLen (Suc fuel) n s =
     s # (case tdtBody T dec eo ed encodedLen n s of
            Inl e \<Rightarrow> []
          | Inr s' \<Rightarrow> tdtTrace T dec eo ed encodedLen fuel (Suc n) s')"
  by (subst tdtTrace.simps) simp

lemma tdtLoop_stop: "\<not> timestep s < encodedLen \<Longrightarrow> tdtLoop T dec eo ed encodedLen fuel n s = Some (Inr s)"
  by (simp add: tdtLoop.simps)

lemma tdtLoop_0: "timestep s < encodedLen \<Longrightarrow> tdtLoop T dec eo ed encodedLen 0 n s = None"
  by (simp add: tdtLoop.simps)

lemma tdtLoop_Suc:
  "timestep s < encodedLen \<Longrightarrow>
   tdtLoop T dec eo ed encodedLen (Suc fuel) n s =
     (case tdtBody T dec eo ed encodedLen n s of
        Inl e \<Rightarrow> Some (Inl e)
      | Inr s' \<Rightarrow> tdtLoop T dec eo ed encodedLen fuel (Suc n) s')"
  by (subst tdtLoop.simps) simp

lemma tdtTrace_nth:
  assumes M: "maxTokensPerStep T = 10" and bound: "encodedLen \<le> 2 ^ 63 - 4"
  shows "tdt_inv s \<Longrightarrow> k < length (tdtTrace T dec eo ed encodedLen fuel n s) \<Longrightarrow>
         tdt_inv (tdtTrace T dec eo ed encodedLen fuel n s ! k) \<and>
         timestep (tdtTrace T dec eo ed encodedLen fuel n s ! k) < encodedLen \<and>
         10 * timestep s + emittedTokens s + int k
           \<le> 10 * timestep (tdtTrace T dec eo ed encodedLen fuel n s ! k)
              + emittedTokens (tdtTrace T dec eo ed encodedLen fuel n s ! k) \<and>
         timestep s \<le> timestep (tdtTrace T dec eo ed encodedLen fuel n s ! k)"
proof (induction fuel arbitrary: n s k)
  case 0
  then show ?case by (simp add: tdtTrace_0)
next
  case (Suc fuel)
  show ?case
  proof (cases "timestep s < encodedLen")
    case False
    with Suc.prems show ?thesis by (simp add: tdtTrace_stop)
  next
    case lt: True
    show ?thesis
    proof (cases k)
      case 0
      with lt Suc.prems show ?thesis by (simp add: tdtTrace_Suc)
    next
      case (Suc k')
      show ?thesis
      proof (cases "tdtBody T dec eo ed encodedLen n s")
        case (Inl e)
        with lt Suc Suc.prems show ?thesis by (simp add: tdtTrace_Suc)
      next
        case (Inr s')
        have p: "tdt_inv s' \<and> 10 * timestep s + emittedTokens s + 1 \<le> 10 * timestep s' + emittedTokens s'
                 \<and> timestep s \<le> timestep s' \<and> timestep s' \<le> timestep s + 4"
          using Inr M Suc.prems(1) lt bound by (rule tdtBody_progress)
        have k': "k' < length (tdtTrace T dec eo ed encodedLen fuel (Suc n) s')"
          using Suc.prems(2) lt Inr Suc by (simp add: tdtTrace_Suc)
        have ih: "tdt_inv (tdtTrace T dec eo ed encodedLen fuel (Suc n) s' ! k') \<and>
         timestep (tdtTrace T dec eo ed encodedLen fuel (Suc n) s' ! k') < encodedLen \<and>
         10 * timestep s' + emittedTokens s' + int k'
           \<le> 10 * timestep (tdtTrace T dec eo ed encodedLen fuel (Suc n) s' ! k')
              + emittedTokens (tdtTrace T dec eo ed encodedLen fuel (Suc n) s' ! k') \<and>
         timestep s' \<le> timestep (tdtTrace T dec eo ed encodedLen fuel (Suc n) s' ! k')"
          using p k' by (intro Suc.IH) simp_all
        have eq: "tdtTrace T dec eo ed encodedLen (Suc fuel) n s ! k
                  = tdtTrace T dec eo ed encodedLen fuel (Suc n) s' ! k'"
          using lt Inr Suc by (simp add: tdtTrace_Suc)
        show ?thesis unfolding eq using ih p Suc by auto
      qed
    qed
  qed
qed

lemma tdtTrace_pair:
  assumes M: "maxTokensPerStep T = 10" and bound: "encodedLen \<le> 2 ^ 63 - 4"
  shows "tdt_inv s \<Longrightarrow> i \<le> j \<Longrightarrow> j < length (tdtTrace T dec eo ed encodedLen fuel n s) \<Longrightarrow>
         tdt_inv (tdtTrace T dec eo ed encodedLen fuel n s ! i) \<and>
         tdt_inv (tdtTrace T dec eo ed encodedLen fuel n s ! j) \<and>
         10 * timestep (tdtTrace T dec eo ed encodedLen fuel n s ! i)
            + emittedTokens (tdtTrace T dec eo ed encodedLen fuel n s ! i) + int (j - i)
           \<le> 10 * timestep (tdtTrace T dec eo ed encodedLen fuel n s ! j)
              + emittedTokens (tdtTrace T dec eo ed encodedLen fuel n s ! j) \<and>
         timestep (tdtTrace T dec eo ed encodedLen fuel n s ! i)
           \<le> timestep (tdtTrace T dec eo ed encodedLen fuel n s ! j)"
proof (induction fuel arbitrary: n s i j)
  case 0
  then show ?case by (simp add: tdtTrace_0)
next
  case (Suc fuel)
  show ?case
  proof (cases "timestep s < encodedLen")
    case False
    with Suc.prems show ?thesis by (simp add: tdtTrace_stop)
  next
    case lt: True
    show ?thesis
    proof (cases i)
      case 0
      have hd: "tdtTrace T dec eo ed encodedLen (Suc fuel) n s ! 0 = s"
        using lt by (simp add: tdtTrace_Suc)
      show ?thesis
        using tdtTrace_nth [OF M bound Suc.prems(1) Suc.prems(3)] Suc.prems(1)
        unfolding 0 hd by simp
    next
      case i: (Suc i')
      then obtain j' where j: "j = Suc j'" and le: "i' \<le> j'"
        using Suc.prems(2) by (cases j) auto
      show ?thesis
      proof (cases "tdtBody T dec eo ed encodedLen n s")
        case (Inl e)
        with lt j Suc.prems show ?thesis by (simp add: tdtTrace_Suc)
      next
        case (Inr s')
        have p: "tdt_inv s'"
          using tdtBody_progress [OF Inr M Suc.prems(1) lt bound] by simp
        have j': "j' < length (tdtTrace T dec eo ed encodedLen fuel (Suc n) s')"
          using Suc.prems(3) lt Inr j by (simp add: tdtTrace_Suc)
        have eqi: "tdtTrace T dec eo ed encodedLen (Suc fuel) n s ! i
                  = tdtTrace T dec eo ed encodedLen fuel (Suc n) s' ! i'"
          using lt Inr i by (simp add: tdtTrace_Suc)
        have eqj: "tdtTrace T dec eo ed encodedLen (Suc fuel) n s ! j
                  = tdtTrace T dec eo ed encodedLen fuel (Suc n) s' ! j'"
          using lt Inr j by (simp add: tdtTrace_Suc)
        show ?thesis unfolding eqi eqj using Suc.IH [OF p le j'] i j by simp
      qed
    qed
  qed
qed

lemma tdtTrace_length:
  assumes M: "maxTokensPerStep T = 10" and bound: "encodedLen \<le> 2 ^ 63 - 4"
  shows "tdt_inv s \<Longrightarrow>
         int (length (tdtTrace T dec eo ed encodedLen fuel n s))
           \<le> max 0 (10 * (encodedLen - timestep s) - emittedTokens s)"
proof (induction fuel arbitrary: n s)
  case 0
  then show ?case by (simp add: tdtTrace_0)
next
  case (Suc fuel)
  show ?case
  proof (cases "timestep s < encodedLen")
    case False
    then show ?thesis by (simp add: tdtTrace_stop)
  next
    case lt: True
    have one: "1 \<le> 10 * (encodedLen - timestep s) - emittedTokens s"
      using lt Suc.prems by (simp add: tdt_inv_def)
    show ?thesis
    proof (cases "tdtBody T dec eo ed encodedLen n s")
      case (Inl e)
      with lt one show ?thesis by (simp add: tdtTrace_Suc)
    next
      case (Inr s')
      have p: "tdt_inv s' \<and> 10 * timestep s + emittedTokens s + 1 \<le> 10 * timestep s' + emittedTokens s'
                 \<and> timestep s \<le> timestep s' \<and> timestep s' \<le> timestep s + 4"
        using Inr M Suc.prems(1) lt bound by (rule tdtBody_progress)
      have ih: "int (length (tdtTrace T dec eo ed encodedLen fuel (Suc n) s'))
           \<le> max 0 (10 * (encodedLen - timestep s') - emittedTokens s')"
        using p by (intro Suc.IH) simp
      have len: "length (tdtTrace T dec eo ed encodedLen (Suc fuel) n s)
                 = Suc (length (tdtTrace T dec eo ed encodedLen fuel (Suc n) s'))"
        using lt Inr by (simp add: tdtTrace_Suc)
      have q: "10 * timestep s + emittedTokens s + 1 \<le> 10 * timestep s' + emittedTokens s'"
        using p by simp
      show ?thesis unfolding len using ih q one by (simp add: max_def algebra_simps split: if_splits)
    qed
  qed
qed

lemma tdtLoop_returns:
  assumes M: "maxTokensPerStep T = 10" and bound: "encodedLen \<le> 2 ^ 63 - 4"
  shows "tdt_inv s \<Longrightarrow> 10 * (encodedLen - timestep s) - emittedTokens s \<le> int fuel \<Longrightarrow>
         \<exists>r. tdtLoop T dec eo ed encodedLen fuel n s = Some r"
proof (induction fuel arbitrary: n s)
  case 0
  then have "\<not> timestep s < encodedLen" by (simp add: tdt_inv_def)
  then show ?case by (simp add: tdtLoop_stop)
next
  case (Suc fuel)
  show ?case
  proof (cases "timestep s < encodedLen")
    case False
    then show ?thesis by (simp add: tdtLoop_stop)
  next
    case lt: True
    show ?thesis
    proof (cases "tdtBody T dec eo ed encodedLen n s")
      case (Inl e)
      with lt show ?thesis by (simp add: tdtLoop_Suc)
    next
      case (Inr s')
      have p: "tdt_inv s' \<and> 10 * timestep s + emittedTokens s + 1 \<le> 10 * timestep s' + emittedTokens s'
                 \<and> timestep s \<le> timestep s' \<and> timestep s' \<le> timestep s + 4"
        using Inr M Suc.prems(1) lt bound by (rule tdtBody_progress)
      have "\<exists>r. tdtLoop T dec eo ed encodedLen fuel (Suc n) s' = Some r"
        using p Suc.prems(2) by (intro Suc.IH) auto
      then show ?thesis using lt Inr by (simp add: tdtLoop_Suc)
    qed
  qed
qed

lemma tdtLoop_exit:
  "tdtLoop T dec eo ed encodedLen fuel n s = Some (Inr s') \<Longrightarrow> encodedLen \<le> timestep s'"
proof (induction fuel arbitrary: n s)
  case 0
  then show ?case by (cases "timestep s < encodedLen") (auto simp: tdtLoop_0 tdtLoop_stop)
next
  case (Suc fuel)
  then show ?case
    by (cases "timestep s < encodedLen")
       (auto simp: tdtLoop_Suc tdtLoop_stop split: sum.splits)
qed

lemma tdtLoop_trace_fuel:
  "tdtLoop T dec eo ed encodedLen fuel n s = Some r \<Longrightarrow>
   tdtLoop T dec eo ed encodedLen (length (tdtTrace T dec eo ed encodedLen fuel n s)) n s = Some r"
proof (induction fuel arbitrary: n s)
  case 0
  then show ?case by (simp add: tdtTrace_0)
next
  case (Suc fuel)
  then show ?case
    by (cases "timestep s < encodedLen")
       (auto simp: tdtLoop_Suc tdtLoop_stop tdtTrace_Suc tdtTrace_stop split: sum.splits)
qed

lemma wrap64_over:
  assumes "2 ^ 63 \<le> x" "x < 2 ^ 64"
  shows "wrap64 x = x - 2 ^ 64"
proof -
  have "(x + 2 ^ 63) mod 2 ^ 64 = (x + 2 ^ 63 - 2 ^ 64) mod (2 ^ 64 :: int)"
    by (simp only: minus_mod_self2)
  also have "\<dots> = x + 2 ^ 63 - 2 ^ 64"
    using assms by (intro mod_pos_pos_trivial) simp_all
  finally show ?thesis
    by (simp add: wrap64_def)
qed

lemma encSlice_panic:
  assumes big: "2 ^ 63 - 4 < encodedLen" and rng: "encodedLen < 2 ^ 63" and dim: "3 \<le> encoderDim"
  shows "encSlice eo encoderDim encodedLen 0 = Inl PanicIndexOutOfRange"
proof -
  have l: "[0..encoderDim - 1] = 0 # 1 # 2 # [3..encoderDim - 1]"
    using dim by (simp add: upto_rec1)
  have w0: "wrap64 0 = 0" by (simp add: wrap64_def)
  have a0: "\<exists>v. encAt eo encodedLen 0 0 = Inr v"
    by (simp add: encAt_def Let_def w0)
  have w1: "wrap64 encodedLen = encodedLen"
    using big rng by (intro wrap64_id) auto
  have a1: "\<exists>v. encAt eo encodedLen 0 1 = Inr v"
    using big by (simp add: encAt_def Let_def w1)
  have w2: "wrap64 (2 * encodedLen) = 2 * encodedLen - 2 ^ 64"
    using big rng by (intro wrap64_over) auto
  have neg: "2 * encodedLen - 2 ^ 64 < 0" using rng by simp
  have w3: "wrap64 (2 * encodedLen - 2 ^ 64) = 2 * encodedLen - 2 ^ 64"
    using big rng by (intro wrap64_id) auto
  have idx: "wrap64 (wrap64 (2 * encodedLen) + 0) = 2 * encodedLen - 2 ^ 64"
    by (simp only: w2 w3 add_0_right)
  have lt: "2 * encodedLen - 2 ^ 64 < int (length eo)"
    using neg by linarith
  have a2: "encAt eo encodedLen 0 2 = Inl PanicIndexOutOfRange"
    by (simp only: encAt_def Let_def idx lt neg if_True)
  show ?thesis
    using a0 a1 a2 dim by (auto simp: encSlice_def l)
qed

lemma tdt_inv_init: "tdt_inv (tdtInit T)"
  by (simp add: tdt_inv_def tdtInit_def)

text \<open>
  C1. With \<open>maxTokensPerStep = 10\<close>, as \<open>NewTranscriber\<close> sets it, a run of the decoding
  loop executes at most \<open>10 * encodedLen\<close> iterations, for every decoder behaviour and
  every encoder output: the list \<open>tdtTrace\<close> of the iterations is that short whatever the
  fuel, and with that much fuel \<open>tdtDecode\<close> returns, using exactly as many iterations as
  the trace lists. Every iteration starts with the time pointer below \<open>encodedLen\<close>, the
  first one at 0; the pointer never decreases from one iteration to a later one, and it
  has strictly increased after any 10 iterations (so in every run of 11 consecutive
  iterations). A normal exit of the loop leaves the pointer at or above \<open>encodedLen\<close>.
  The length is an \<open>int64\<close>; when it is within 3 of the largest \<open>int64\<close> the pointer
  arithmetic could wrap around, but then, for an encoder dimension of at least 3 (the
  caller passes 1024), the very first column read panics on a negative index.
\<close>

theorem tdtDecode_terminates:
  assumes M: "maxTokensPerStep T = 10"
    and rng: "encodedLen < 2 ^ 63"
    and safe: "encodedLen \<le> 2 ^ 63 - 4 \<or> 3 \<le> encoderDim"
  shows "length (tdtTrace T dec eo encoderDim encodedLen fuel 0 (tdtInit T)) \<le> 10 * nat encodedLen
    \<and> (10 * nat encodedLen \<le> fuel \<longrightarrow>
         (\<exists>r. tdtDecode T dec fuel eo encoderDim encodedLen = Some r
            \<and> tdtDecode T dec (length (tdtTrace T dec eo encoderDim encodedLen fuel 0 (tdtInit T)))
                  eo encoderDim encodedLen = Some r))
    \<and> (\<forall>i. i < length (tdtTrace T dec eo encoderDim encodedLen fuel 0 (tdtInit T)) \<longrightarrow>
           timestep (tdtTrace T dec eo encoderDim encodedLen fuel 0 (tdtInit T) ! i) < encodedLen)
    \<and> (0 < length (tdtTrace T dec eo encoderDim encodedLen fuel 0 (tdtInit T)) \<longrightarrow>
           timestep (tdtTrace T dec eo encoderDim encodedLen fuel 0 (tdtInit T) ! 0) = 0)
    \<and> (\<forall>i j. i \<le> j \<and> j < length (tdtTrace T dec eo encoderDim encodedLen fuel 0 (tdtInit T)) \<longrightarrow>
           timestep (tdtTrace T dec eo encoderDim encodedLen fuel 0 (tdtInit T) ! i)
             \<le> timestep (tdtTrace T dec eo encoderDim encodedLen fuel 0 (tdtInit T) ! j))
    \<and> (\<forall>i. i + 10 < length (tdtTrace T dec eo encoderDim encodedLen fuel 0 (tdtInit T)) \<longrightarrow>
           timestep (tdtTrace T dec eo encoderDim encodedLen fuel 0 (tdtInit T) ! i)
             < timestep (tdtTrace T dec eo encoderDim encodedLen fuel 0 (tdtInit T) ! (i + 10)))
    \<and> (\<forall>s'. tdtLoop T dec eo encoderDim encodedLen fuel 0 (tdtInit T) = Some (Inr s') \<longrightarrow>
           encodedLen \<le> timestep s')"
proof -
  let ?s = "tdtInit T :: 'a tdt_state"
  let ?tr = "tdtTrace T dec eo encoderDim encodedLen fuel 0 ?s"
  have t0: "timestep ?s = 0" and e0: "emittedTokens ?s = 0"
    by (simp_all add: tdtInit_def)
  have inv0: "tdt_inv ?s" by (rule tdt_inv_init)
  have exit: "\<forall>s'. tdtLoop T dec eo encoderDim encodedLen fuel 0 ?s = Some (Inr s') \<longrightarrow>
           encodedLen \<le> timestep s'"
    using tdtLoop_exit by blast
  have ret: "(\<exists>r. tdtLoop T dec eo encoderDim encodedLen fuel 0 ?s = Some r) \<Longrightarrow>
     (\<exists>r. tdtDecode T dec fuel eo encoderDim encodedLen = Some r
        \<and> tdtDecode T dec (length ?tr) eo encoderDim encodedLen = Some r)"
    by (auto simp: tdtDecode_def dest: tdtLoop_trace_fuel)
  show ?thesis
  proof (cases "encodedLen \<le> 2 ^ 63 - 4")
    case True
    note nth = tdtTrace_nth [OF M True inv0, of _ dec eo encoderDim fuel 0]
    note pair = tdtTrace_pair [OF M True inv0, of _ _ dec eo encoderDim fuel 0]
    have len: "length ?tr \<le> 10 * nat encodedLen"
      using tdtTrace_length [OF M True inv0, of dec eo encoderDim fuel 0]
      by (simp add: t0 e0)
    have r: "10 * nat encodedLen \<le> fuel \<Longrightarrow>
             \<exists>r. tdtLoop T dec eo encoderDim encodedLen fuel 0 ?s = Some r"
      by (intro tdtLoop_returns [OF M True inv0]) (simp add: t0 e0)
    have below: "\<forall>i. i < length ?tr \<longrightarrow> timestep (?tr ! i) < encodedLen"
      using nth by blast
    have start: "0 < length ?tr \<longrightarrow> timestep (?tr ! 0) = 0"
    proof
      assume "0 < length ?tr"
      then have "timestep ?s < encodedLen"
        by (cases "timestep ?s < encodedLen") (simp_all add: tdtTrace_stop)
      with \<open>0 < length ?tr\<close> show "timestep (?tr ! 0) = 0"
        by (cases fuel) (simp_all add: tdtTrace_0 tdtTrace_Suc t0)
    qed
    have mono: "\<forall>i j. i \<le> j \<and> j < length ?tr \<longrightarrow> timestep (?tr ! i) \<le> timestep (?tr ! j)"
      using pair by blast
    have strict: "\<forall>i. i + 10 < length ?tr \<longrightarrow> timestep (?tr ! i) < timestep (?tr ! (i + 10))"
    proof (intro allI impI)
      fix i assume i: "i + 10 < length ?tr"
      have le: "i \<le> i + 10" by simp
      from pair [OF le i]
      have "emittedTokens (?tr ! (i + 10)) \<le> 9" "0 \<le> emittedTokens (?tr ! i)"
        "10 * timestep (?tr ! i) + emittedTokens (?tr ! i) + 10
           \<le> 10 * timestep (?tr ! (i + 10)) + emittedTokens (?tr ! (i + 10))"
        by (simp_all add: tdt_inv_def)
      then show "timestep (?tr ! i) < timestep (?tr ! (i + 10))" by linarith
    qed
    show ?thesis using len r ret below start mono strict exit by blast
  next
    case False
    then have big: "2 ^ 63 - 4 < encodedLen" and dim: "3 \<le> encoderDim"
      using safe by auto
    have pos: "timestep ?s < encodedLen" using big by (simp add: t0)
    have body: "tdtBody T dec eo encoderDim encodedLen 0 ?s = Inl PanicIndexOutOfRange"
      using encSlice_panic [OF big rng dim, of eo] by (simp add: tdtBody_def t0)
    have tr: "?tr = [] \<or> ?tr = [?s]"
      using pos body by (cases fuel) (simp_all add: tdtTrace_0 tdtTrace_Suc)
    have one: "1 \<le> 10 * nat encodedLen" using big by simp
    have r: "10 * nat encodedLen \<le> fuel \<Longrightarrow>
             \<exists>r. tdtLoop T dec eo encoderDim encodedLen fuel 0 ?s = Some r"
      using pos body one by (cases fuel) (simp_all add: tdtLoop_Suc)
    have len: "length ?tr \<le> 10 * nat encodedLen" using tr one by auto
    have below: "\<forall>i. i < length ?tr \<longrightarrow> timestep (?tr ! i) < encodedLen"
      using tr pos by auto
    have start: "0 < length ?tr \<longrightarrow> timestep (?tr ! 0) = 0"
      using tr t0 by auto
    have mono: "\<forall>i j. i \<le> j \<and> j < length ?tr \<longrightarrow> timestep (?tr ! i) \<le> timestep (?tr ! j)"
      using tr by auto
    have strict: "\<forall>i. i + 10 < length ?tr \<longrightarrow> timestep (?tr ! i) < timestep (?tr ! (i + 10))"
      using tr by auto
    show ?thesis using len r ret below start mono strict exit by blast
  qed
qed


theorem tdtDecode_terminates_witness:
  "length (tdtTrace T0 dec0 [] 3 2 20 0 (tdtInit T0)) \<le> 10 * nat 2
   \<and> (\<exists>r. tdtDecode T0 dec0 20 [] 3 2 = Some r)"
proof -
  have M: "maxTokensPerStep T0 = 10" by (simp add: T0_def)
  have rng: "(2::int) < 2 ^ 63" by simp
  have safe: "(2::int) \<le> 2 ^ 63 - 4 \<or> (3::int) \<le> 3" by simp
  have fuel: "10 * nat 2 \<le> (20::nat)" by simp
  from tdtDecode_terminates [OF M rng safe, of dec0 "[]" 20] fuel
  show ?thesis by blast
qed

subsection \<open>What an iteration changes\<close>

text \<open>
  C9. An iteration that completes reads one decoder answer \<open>r\<close>. When the token it picks
  is the blank, the two state buffers, \<open>prevToken\<close> and the token list are the same after
  the iteration as before. When the token is not the blank, the state buffers are
  overwritten by \<open>copy\<close> from the decoder's output states, \<open>prevToken\<close> becomes the token,
  and the token is appended to the list.
\<close>

theorem tdtBody_blank_frame:
  assumes body: "tdtBody T dec eo ed encodedLen n s = Inr s'"
  shows "\<exists>sl r. encSlice eo ed encodedLen (timestep s) = Inr sl
          \<and> dec n sl (wrap32 (prevToken s)) (state1 s) (state2 s) = Inr r
          \<and> (if iterToken T r = blankIdx T
              then state1 s' = state1 s \<and> state2 s' = state2 s
                 \<and> prevToken s' = prevToken s \<and> tokens s' = tokens s
              else state1 s' = copy (state1 s) (map (output_states_1 r) [0..<1280])
                 \<and> state2 s' = copy (state2 s) (map (output_states_2 r) [0..<1280])
                 \<and> prevToken s' = iterToken T r
                 \<and> tokens s' = tokens s @ [iterToken T r])"
proof -
  from body obtain sl r where
    sl: "encSlice eo ed encodedLen (timestep s) = Inr sl"
    and r: "dec n sl (wrap32 (prevToken s)) (state1 s) (state2 s) = Inr r"
    and s': "s' = advance T (iterToken T r)
        (argmax (drop (nat (vocabSize T)) (map (outputs r) [0..<nat (vocabSize T + numDurationClasses)])))
        (emit T (iterToken T r)
           (map (output_states_1 r) [0..<nat (numLayers * stateDim)])
           (map (output_states_2 r) [0..<nat (numLayers * stateDim)]) s)"
    by (auto simp: tdtBody_def iterToken_def Let_def split: sum.splits if_splits)
  have n: "nat (numLayers * stateDim) = 1280"
    by (simp add: numLayers_def stateDim_def)
  have "if iterToken T r = blankIdx T
              then state1 s' = state1 s \<and> state2 s' = state2 s
                 \<and> prevToken s' = prevToken s \<and> tokens s' = tokens s
              else state1 s' = copy (state1 s) (map (output_states_1 r) [0..<1280])
                 \<and> state2 s' = copy (state2 s) (map (output_states_2 r) [0..<1280])
                 \<and> prevToken s' = iterToken T r
                 \<and> tokens s' = tokens s @ [iterToken T r]"
    unfolding s' n by (simp add: advance_def emit_def)
  with sl r show ?thesis by blast
qed

lemma encSlice_T0: "encSlice ([] :: int list) 3 2 0 = Inr [0, 0, 0]"
  by (simp add: encSlice_def encAt_def wrap64_def upto_rec1)

lemma iterToken_T0:
  "iterToken T0 \<lparr>outputs = (\<lambda>i. 0::int), output_states_1 = (\<lambda>i. 0), output_states_2 = (\<lambda>i. 0)\<rparr> = 0"
  by (simp add: iterToken_def T0_def numDurationClasses_def argmax_def upt_rec)


theorem tdtBody_blank_frame_witness:
  "\<exists>s'. tdtBody T0 dec0 [] 3 2 0 (tdtInit T0) = Inr s'
      \<and> state1 s' = state1 (tdtInit T0 :: int tdt_state)
      \<and> state2 s' = state2 (tdtInit T0 :: int tdt_state)
      \<and> prevToken s' = prevToken (tdtInit T0 :: int tdt_state)
      \<and> tokens s' = tokens (tdtInit T0 :: int tdt_state)"
proof -
  let ?s = "tdtInit T0 :: int tdt_state"
  have t0: "timestep ?s = 0"
    by (simp add: tdtInit_def)
  have "\<exists>s'. tdtBody T0 dec0 [] 3 2 0 ?s = Inr s'"
    by (simp add: tdtBody_def t0 encSlice_T0 dec0_def Let_def)
       (simp add: T0_def numDurationClasses_def)
  then obtain s' where b: "tdtBody T0 dec0 [] 3 2 0 ?s = Inr s'" ..
  from tdtBody_blank_frame [OF b] obtain sl r where
    r: "dec0 0 sl (wrap32 (prevToken ?s)) (state1 ?s) (state2 ?s) = Inr r"
    and f: "if iterToken T0 r = blankIdx T0
              then state1 s' = state1 ?s \<and> state2 s' = state2 ?s
                 \<and> prevToken s' = prevToken ?s \<and> tokens s' = tokens ?s
              else state1 s' = copy (state1 ?s) (map (output_states_1 r) [0..<1280])
                 \<and> state2 s' = copy (state2 ?s) (map (output_states_2 r) [0..<1280])
                 \<and> prevToken s' = iterToken T0 r
                 \<and> tokens s' = tokens ?s @ [iterToken T0 r]"
    by blast
  from r have "r = \<lparr>outputs = (\<lambda>i. 0), output_states_1 = (\<lambda>i. 0), output_states_2 = (\<lambda>i. 0)\<rparr>"
    by (simp add: dec0_def)
  then have "iterToken T0 r = blankIdx T0"
    by (simp add: iterToken_T0) (simp add: T0_def)
  with f b show ?thesis by simp
qed

section \<open>Panics and wrapped errors\<close>

text \<open>
  \<open>fmt.Errorf("...: %w", err)\<close> wraps an error value; a panic is not a value and passes
  through every caller unchanged.
\<close>

definition is_panic :: "error \<Rightarrow> bool" where
  "is_panic e \<longleftrightarrow>
     e \<in> {PanicIndexOutOfRange, PanicDivideByZero, PanicMakeSliceLen, PanicSliceBounds, OutsideModel}"

definition wrapErr :: "(error \<Rightarrow> error) \<Rightarrow> error \<Rightarrow> error" where
  "wrapErr w e = (if is_panic e then e else w e)"


section \<open>Floating point\<close>

text \<open>
  \<open>float64\<close> and \<open>float32\<close> values are the real numbers they denote, and every
  floating-point operation of the code is the exact operation followed by IEEE 754
  rounding to nearest, ties to even: \<open>rnd p emin\<close> rounds to \<open>p\<close> significant bits with
  least exponent \<open>emin\<close> (so subnormals are covered). Overflow to infinity is not
  modelled, and products and sums are rounded one by one (no fused multiply-add).
\<close>


definition round_even :: "real \<Rightarrow> int" where
  "round_even r =
     (let f = \<lfloor>r\<rfloor>; d = r - of_int f
      in if d < 1 / 2 then f else if 1 / 2 < d then f + 1 else if even f then f else f + 1)"

definition ulp_exp :: "nat \<Rightarrow> int \<Rightarrow> real \<Rightarrow> int" where
  "ulp_exp p emin x = max \<lfloor>log 2 \<bar>x\<bar>\<rfloor> emin - (int p - 1)"

definition rnd :: "nat \<Rightarrow> int \<Rightarrow> real \<Rightarrow> real" where
  "rnd p emin x =
     (if x = 0 then 0
      else of_int (round_even (x / 2 powr of_int (ulp_exp p emin x)))
             * 2 powr of_int (ulp_exp p emin x))"

definition f64 :: "real \<Rightarrow> real" where
  "f64 = rnd 53 (- 1022)"

definition f32 :: "real \<Rightarrow> real" where
  "f32 = rnd 24 (- 126)"


subsection \<open>Rounding: exact cases and bounds\<close>








section \<open>WAV decoding (\<open>parseWAV\<close>, \<open>convertToFloat32\<close>, \<open>resample\<close>)\<close>

text \<open>
  The payload is a byte list. Slice expressions are checked against the length of the
  list (the model takes the capacity of \<open>data\<close> to be its length). Little-endian reads
  are those of \<open>encoding/binary\<close>; \<open>toSigned w\<close> is the conversion of a \<open>w\<close>-bit
  pattern to a signed integer (\<open>int16(...)\<close>, \<open>int32(...)\<close>, and the explicit sign
  extension of the 24-bit case). \<open>float32frombits\<close> is \<open>math.Float32frombits\<close>.
\<close>

type_synonym byte = "8 word"

definition float32frombits :: "nat \<Rightarrow> error + real" where
  "float32frombits bits =
     (let m = bits mod 2 ^ 23;
          e = (bits div 2 ^ 23) mod 2 ^ 8;
          sign = (if bits div 2 ^ 31 mod 2 = 1 then - 1 else 1 :: real)
      in if e = 255 then Inl OutsideModel
         else if e = 0 then Inr (sign * real m / 2 ^ 149)
         else Inr (sign * real (2 ^ 23 + m) * 2 ^ e / 2 ^ 150))"


definition uint16le :: "byte list \<Rightarrow> nat \<Rightarrow> nat" where
  "uint16le data off = unat (data ! off) + 2 ^ 8 * unat (data ! (off + 1))"

definition uint24le :: "byte list \<Rightarrow> nat \<Rightarrow> nat" where
  "uint24le data off =
     unat (data ! off) + 2 ^ 8 * unat (data ! (off + 1)) + 2 ^ 16 * unat (data ! (off + 2))"

definition uint32le :: "byte list \<Rightarrow> nat \<Rightarrow> nat" where
  "uint32le data off =
     unat (data ! off) + 2 ^ 8 * unat (data ! (off + 1))
       + 2 ^ 16 * unat (data ! (off + 2)) + 2 ^ 24 * unat (data ! (off + 3))"

definition bytes :: "string \<Rightarrow> byte list" where
  "bytes s = map (\<lambda>c. of_nat (of_char c)) s"

definition toSigned :: "nat \<Rightarrow> nat \<Rightarrow> int" where
  "toSigned w u = (if u < 2 ^ (w - 1) then int u else int u - 2 ^ w)"

definition sampleVal :: "byte list \<Rightarrow> nat \<Rightarrow> nat \<Rightarrow> nat \<Rightarrow> error + real" where
  "sampleVal data audioFormat bitsPerSample offset =
     (if bitsPerSample = 8 then
        Inr (f64 (f64 (real (unat (data ! offset)) / 128) - 1))
      else if bitsPerSample = 16 then
        Inr (f64 (real_of_int (toSigned 16 (uint16le data offset)) / 32768))
      else if bitsPerSample = 24 then
        Inr (f64 (real_of_int (toSigned 24 (uint24le data offset)) / 8388608))
      else if bitsPerSample = 32 then
        (if audioFormat = 3 then float32frombits (uint32le data offset)
         else Inr (f64 (real_of_int (toSigned 32 (uint32le data offset)) / 2147483648)))
      else Inl (UnsupportedBitsPerSample bitsPerSample))"

fun channelSum ::
  "byte list \<Rightarrow> nat \<Rightarrow> nat \<Rightarrow> nat \<Rightarrow> nat \<Rightarrow> nat list \<Rightarrow> real \<Rightarrow> error + real" where
  "channelSum data audioFormat bitsPerSample bytesPerSample base [] acc = Inr acc"
| "channelSum data audioFormat bitsPerSample bytesPerSample base (ch # chs) acc =
     (let offset = (base + ch) * bytesPerSample
      in if offset + bytesPerSample > length data then Inr acc
         else (case sampleVal data audioFormat bitsPerSample offset of
                 Inl e \<Rightarrow> Inl e
               | Inr val \<Rightarrow>
                   channelSum data audioFormat bitsPerSample bytesPerSample base chs
                     (f64 (acc + val))))"

definition convertToFloat32 :: "byte list \<Rightarrow> nat \<Rightarrow> nat \<Rightarrow> nat \<Rightarrow> error + real list" where
  "convertToFloat32 data audioFormat numChannels bitsPerSample =
     (if audioFormat \<noteq> 1 \<and> audioFormat \<noteq> 3 then Inl (UnsupportedAudioFormat audioFormat)
      else
        let bytesPerSample = bitsPerSample div 8
        in if bytesPerSample * numChannels = 0 then Inl PanicDivideByZero
           else
             let numSamples = length data div (bytesPerSample * numChannels)
             in mapE (\<lambda>i.
                  case channelSum data audioFormat bitsPerSample bytesPerSample
                         (i * numChannels) [0..<numChannels] 0 of
                    Inl e \<Rightarrow> Inl e
                  | Inr acc \<Rightarrow> Inr (f32 (f64 (acc / real numChannels))))
                  [0..<numSamples])"

definition resampleAt :: "real list \<Rightarrow> real \<Rightarrow> nat \<Rightarrow> error + real" where
  "resampleAt samples ratio i =
     (let srcIdx = f64 (real i * ratio);
          lo = nat \<lfloor>srcIdx\<rfloor>;
          hi = (if lo + 1 \<ge> length samples then length samples - 1 else lo + 1);
          frac = f32 (f64 (srcIdx - real lo))
      in if lo \<ge> length samples then Inl PanicIndexOutOfRange
         else Inr (f32 (f32 (samples ! lo * f32 (1 - frac)) + f32 (samples ! hi * frac))))"

definition resample :: "real list \<Rightarrow> nat \<Rightarrow> nat \<Rightarrow> error + real list" where
  "resample samples srcRate dstRate =
     (if srcRate = dstRate then Inr samples
      else if srcRate = 0 \<or> dstRate = 0 then Inl OutsideModel
      else
        let ratio = f64 (real srcRate / real dstRate);
            q = f64 (real (length samples) / ratio)
        in if q \<ge> 2 ^ 63 then Inl OutsideModel
           else mapE (resampleAt samples ratio) [0..<nat \<lfloor>q\<rfloor>])"

record wav_fmt =
  fmtAudioFormat :: nat
  fmtNumChannels :: nat
  fmtSampleRate :: nat
  fmtBitsPerSample :: nat

function parseChunks :: "byte list \<Rightarrow> wav_fmt \<Rightarrow> nat \<Rightarrow> error + real list" where
  "parseChunks data fmt offset =
     (if int offset < int (length data) - 8 then
        (let chunkID = take 4 (drop offset data);
             chunkSize = uint32le data (offset + 4)
         in if chunkID = bytes ''fmt '' then
              (if chunkSize < 16 then Inl FmtChunkTooSmall
               else if offset + 24 > length data then Inl PanicSliceBounds
               else parseChunks data
                      \<lparr>fmtAudioFormat = uint16le data (offset + 8),
                       fmtNumChannels = uint16le data (offset + 10),
                       fmtSampleRate = uint32le data (offset + 12),
                       fmtBitsPerSample = uint16le data (offset + 22)\<rparr>
                      (offset + 8 + chunkSize + (if chunkSize mod 2 \<noteq> 0 then 1 else 0)))
            else if chunkID = bytes ''data'' then
              (let dataStart = offset + 8;
                   dataEnd = min (dataStart + chunkSize) (length data);
                   audioData = take (dataEnd - dataStart) (drop dataStart data)
               in case convertToFloat32 audioData (fmtAudioFormat fmt) (fmtNumChannels fmt)
                         (fmtBitsPerSample fmt) of
                    Inl e \<Rightarrow> Inl e
                  | Inr samples \<Rightarrow>
                      if fmtSampleRate fmt \<noteq> 16000 then resample samples (fmtSampleRate fmt) 16000
                      else Inr samples)
            else parseChunks data fmt
                   (offset + 8 + chunkSize + (if chunkSize mod 2 \<noteq> 0 then 1 else 0)))
      else Inl NoDataChunk)"
  by pat_completeness auto
termination
  by (relation "measure (\<lambda>(data, fmt, offset). length data - offset)") auto

definition parseWAV :: "byte list \<Rightarrow> error + real list" where
  "parseWAV data =
     (if length data < 44 then Inl WavTooSmall
      else if take 4 data \<noteq> bytes ''RIFF'' then Inl NotRIFF
      else if take 4 (drop 8 data) \<noteq> bytes ''WAVE'' then Inl NotWAVE
      else parseChunks data \<lparr>fmtAudioFormat = 0, fmtNumChannels = 0, fmtSampleRate = 0, fmtBitsPerSample = 0\<rparr> 12)"

definition loadAudio :: "byte list \<Rightarrow> string \<Rightarrow> error + real list" where
  "loadAudio data format =
     (if format = ''.wav'' then parseWAV data
      else if format \<in> {''.webm'', ''.ogg'', ''.mp3'', ''.m4a''} then Inl (FormatNotImplemented format)
      else parseWAV data)"


text \<open>
  Concrete payloads: a canonical 36-byte header (RIFF, WAVE, and a 16-byte \<open>fmt\<close> chunk
  for PCM at 16000 Hz) with a chosen channel count and bit depth, followed by a \<open>data\<close>
  chunk.
\<close>

definition wavHeader :: "nat \<Rightarrow> nat \<Rightarrow> byte list" where
  "wavHeader channels bits =
     bytes ''RIFF'' @ [36, 0, 0, 0] @ bytes ''WAVE''
     @ bytes ''fmt '' @ [16, 0, 0, 0]
     @ [1, 0] @ [of_nat channels, 0] @ [0x80, 0x3E, 0, 0] @ [0, 0x7D, 0, 0] @ [2, 0] @ [of_nat bits, 0]"

definition wav44 :: "byte list" where
  "wav44 = wavHeader 1 16 @ bytes ''data'' @ [0, 0, 0, 0]"

definition wavZeroChannels :: "byte list" where
  "wavZeroChannels = wavHeader 0 16 @ bytes ''data'' @ [2, 0, 0, 0] @ [0, 0]"

definition wavZeroBits :: "byte list" where
  "wavZeroBits = wavHeader 1 0 @ bytes ''data'' @ [2, 0, 0, 0] @ [0, 0]"


declare parseChunks.simps [simp del]

subsection \<open>Running the parser on the concrete payloads\<close>

lemma len44: "length wav44 = 44"
  by (simp add: wav44_def wavHeader_def bytes_def)

lemma parseWAV_wav44: "parseWAV wav44 = Inl NoDataChunk"
  by (simp add: parseWAV_def wav44_def wavHeader_def bytes_def parseChunks.simps uint32le_def uint16le_def)

lemma parseWAV_zero_channels: "parseWAV wavZeroChannels = Inl PanicDivideByZero"
  by (simp add: parseWAV_def wavZeroChannels_def wavHeader_def bytes_def parseChunks.simps uint32le_def uint16le_def
      convertToFloat32_def)

lemma parseWAV_zero_bits: "parseWAV wavZeroBits = Inl PanicDivideByZero"
  by (simp add: parseWAV_def wavZeroBits_def wavHeader_def bytes_def parseChunks.simps uint32le_def uint16le_def
      convertToFloat32_def)

text \<open>
  C10. There are RIFF/WAVE payloads on which sample conversion divides by zero: one whose
  \<open>fmt\<close> chunk declares zero channels and one that declares zero bits per sample (each
  46 bytes, with a 2-byte \<open>data\<close> chunk). \<open>parseWAV\<close> ends in the integer-division panic
  on both, not in an error value; indeed \<open>convertToFloat32\<close> panics for every buffer when
  the channel count is 0 or the bit depth is below 8.
\<close>

theorem parseWAV_divide_by_zero:
  "parseWAV wavZeroChannels = Inl PanicDivideByZero
   \<and> parseWAV wavZeroBits = Inl PanicDivideByZero
   \<and> (\<forall>data bits. convertToFloat32 data 1 0 bits = Inl PanicDivideByZero)
   \<and> (\<forall>data ch. convertToFloat32 data 1 ch 0 = Inl PanicDivideByZero)"
  using parseWAV_zero_channels parseWAV_zero_bits by (simp add: convertToFloat32_def)

subsection \<open>Sample values\<close>














































end
